theory Spec2Isabelle
  imports Main "HOL-Library.Option_ord"
begin

section \<open>Go standard library functions used by the services\<close>

subsection \<open>strconv.FormatInt\<close>

text \<open>
  The digit table of package strconv. \<open>formatBits\<close> is the general-base loop of
  strconv.formatBits: while \<open>u >= b\<close> it emits the digit of \<open>u mod b\<close> in front of the
  buffer and divides; then it emits the last digit. FormatInt panics for a base outside
  2..36; the only call of the program uses base 36.
\<close>

definition digits :: string where
  "digits = ''0123456789abcdefghijklmnopqrstuvwxyz''"

function formatBits :: "nat \<Rightarrow> nat \<Rightarrow> string \<Rightarrow> string" where
  "formatBits u b a =
     (if 2 \<le> b \<and> b \<le> u then formatBits (u div b) b ((digits ! (u mod b)) # a)
      else (digits ! u) # a)"
  by pat_completeness auto
termination
  by (relation "measure (\<lambda>(u, b, a). u)") auto

declare formatBits.simps [simp del]

definition FormatInt :: "int \<Rightarrow> nat \<Rightarrow> string" where
  "FormatInt i base =
     (if i < 0 then CHR ''-'' # formatBits (nat (- i)) base []
      else formatBits (nat i) base [])"

subsection \<open>strconv.Atoi\<close>

definition isDigit :: "char \<Rightarrow> bool" where
  "isDigit ch = (48 \<le> (of_char ch :: nat) \<and> (of_char ch :: nat) \<le> 57)"

definition decimal :: "string \<Rightarrow> nat" where
  "decimal s = foldl (\<lambda>n ch. 10 * n + ((of_char ch :: nat) - 48)) 0 s"

definition Atoi :: "string \<Rightarrow> int option" where
  "Atoi s =
     (let neg = (s \<noteq> [] \<and> hd s = CHR ''-'');
          body = (if s \<noteq> [] \<and> (hd s = CHR ''-'' \<or> hd s = CHR ''+'') then tl s else s)
      in if body = [] \<or> \<not> list_all isDigit body then None
         else (let n = (if neg then - int (decimal body) else int (decimal body))
               in if n < - (2 ^ 63) \<or> 2 ^ 63 - 1 < n then None else Some n))"

subsection \<open>time.Parse with the layout 2006-01-02\<close>

definition isLeap :: "nat \<Rightarrow> bool" where
  "isLeap year = (year mod 4 = 0 \<and> (year mod 100 \<noteq> 0 \<or> year mod 400 = 0))"

definition daysBefore :: "nat list" where
  "daysBefore = [0, 31, 59, 90, 120, 151, 181, 212, 243, 273, 304, 334, 365]"

definition daysIn :: "nat \<Rightarrow> nat \<Rightarrow> nat" where
  "daysIn m year = (if m = 2 \<and> isLeap year then 29 else daysBefore ! m - daysBefore ! (m - 1))"

definition unixMilli :: "nat \<Rightarrow> nat \<Rightarrow> nat \<Rightarrow> int" where
  "unixMilli year m d =
     (let y = int year - 1;
          days = 365 * y + y div 4 - y div 100 + y div 400
                 + int (daysBefore ! (m - 1)) + (if isLeap year \<and> 2 < m then 1 else 0)
                 + (int d - 1) - 719162
      in days * 86400000)"

definition Parse :: "string \<Rightarrow> int option" where
  "Parse v =
     (if length v < 4 \<or> \<not> list_all isDigit (take 4 v) then None
      else if length v < 5 \<or> v ! 4 \<noteq> CHR ''-'' then None
      else if length v < 7 \<or> \<not> list_all isDigit (take 2 (drop 5 v)) then None
      else if length v < 8 \<or> v ! 7 \<noteq> CHR ''-'' then None
      else if length v < 10 \<or> \<not> list_all isDigit (take 2 (drop 8 v)) then None
      else if 10 < length v then None
      else (let year = decimal (take 4 v); month = decimal (take 2 (drop 5 v));
                day = decimal (take 2 (drop 8 v))
            in if month < 1 \<or> 12 < month then None
               else if day < 1 \<or> daysIn month year < day then None
               else Some (unixMilli year month day)))"

subsection \<open>primitive.ObjectID\<close>

text \<open>
  An ObjectID is 12 bytes; it is modelled as the natural number those bytes spell in
  big-endian order, so that two hex strings that differ only in letter case name the same
  id. The zero value is NilObjectID. ObjectIDFromHex wants 24 hex digits; \<open>Hex\<close> writes
  the id back in lower case.
\<close>

type_synonym ObjectID = nat

definition hexval :: "char \<Rightarrow> nat option" where
  "hexval ch =
     (let n = (of_char ch :: nat)
      in if 48 \<le> n \<and> n \<le> 57 then Some (n - 48)
         else if 97 \<le> n \<and> n \<le> 102 then Some (n - 87)
         else if 65 \<le> n \<and> n \<le> 70 then Some (n - 55)
         else None)"

definition ObjectIDFromHex :: "string \<Rightarrow> ObjectID option" where
  "ObjectIDFromHex s =
     (if length s \<noteq> 24 then None
      else if list_all (\<lambda>ch. hexval ch \<noteq> None) s
           then Some (foldl (\<lambda>n ch. 16 * n + (case hexval ch of None \<Rightarrow> 0 | Some v \<Rightarrow> v)) 0 s)
           else None)"

definition IsValidObjectID :: "string \<Rightarrow> bool" where
  "IsValidObjectID s = (ObjectIDFromHex s \<noteq> None)"

definition Hex :: "ObjectID \<Rightarrow> string" where
  "Hex oid = map (\<lambda>i. ''0123456789abcdef'' ! ((oid div 16 ^ (23 - i)) mod 16)) [0..<24]"

section \<open>The document store\<close>

text \<open>
  The MongoDB server and driver are external to the repository. A collection is modelled
  as the list of its documents in natural (insertion) order.
\<close>

datatype store_error = DuplicateKeyError | ErrNoDocuments | CommandError

text \<open>Collection.CountDocuments with the empty filter.\<close>

definition CountDocuments :: "'a list \<Rightarrow> store_error + int" where
  "CountDocuments c = Inr (int (length c))"

text \<open>Collection.FindOne: the first document, in natural order, that the filter matches.\<close>

definition FindOne :: "('a \<Rightarrow> bool) \<Rightarrow> 'a list \<Rightarrow> store_error + 'a" where
  "FindOne flt c = (case find flt c of None \<Rightarrow> Inl ErrNoDocuments | Some d \<Rightarrow> Inr d)"

text \<open>
  Collection.UpdateOne: the mutation is applied to the first matching document; matching
  no document is not an error.
\<close>

fun update_first :: "('a \<Rightarrow> bool) \<Rightarrow> ('a \<Rightarrow> 'a) \<Rightarrow> 'a list \<Rightarrow> 'a list" where
  "update_first flt f [] = []"
| "update_first flt f (d # ds) = (if flt d then f d # ds else d # update_first flt f ds)"

definition UpdateOne :: "('a \<Rightarrow> bool) \<Rightarrow> ('a \<Rightarrow> 'a) \<Rightarrow> 'a list \<Rightarrow> store_error + 'a list" where
  "UpdateOne flt f c = Inr (update_first flt f c)"

text \<open>The id the store gives a document inserted without one: an id no stored document has.\<close>

definition fresh_id :: "ObjectID list \<Rightarrow> ObjectID" where
  "fresh_id ids = Suc (fold max ids 0)"

section \<open>Payloads\<close>

text \<open>
  Every service returns the bytes of a JSON document. The model keeps the structure that is
  serialised: \<open>ErrorMessage s\<close> is \<open>{"error": s}\<close>, \<open>NoBytes\<close> is the nil byte slice.
\<close>

record ExerciseRecord =
  Description :: string
  Duration :: int
  Date :: int

record ExerciseUserRecord =
  ID :: string
  Username :: string
  Log :: "ExerciseRecord list"

datatype payload =
    ErrorMessage string
  | urlReceipt string string
  | ExerciseUserRecordJSON ExerciseUserRecord
  | ExerciseAddedReceipt string string string int int
  | NoBytes

section \<open>URL shortener (shorturldao.go)\<close>

record urlDBRecord =
  url_ID :: ObjectID
  OriginalURL :: string
  ShortURL :: string
  TimesVisited :: int

type_synonym urlCollection = "urlDBRecord list"

text \<open>
  Modelled from the spec: the unique index on \<open>original_url\<close> is created outside the
  repository's code; section 3 of the specification states that \<open>original_url\<close> is unique
  across all records and section 4.1 that the store reports a uniqueness violation on it.
  InsertOne therefore rejects a document whose \<open>original_url\<close> is already stored, and
  otherwise appends the document under a fresh id (the \<open>_id\<close> field is \<open>omitempty\<close> and
  the new document carries the zero id).
\<close>

definition InsertOne_url :: "urlCollection \<Rightarrow> urlDBRecord \<Rightarrow> store_error + (ObjectID \<times> urlCollection)" where
  "InsertOne_url c d =
     (if OriginalURL d \<in> set (map OriginalURL c) then Inl DuplicateKeyError
      else (let oid = fresh_id (map url_ID c) in Inr (oid, c @ [d\<lparr>url_ID := oid\<rparr>])))"

text \<open>
  insertURL. json.Marshal cannot fail on a struct of strings, so its error branches are
  left out; every other branch of the source is kept in its order.
\<close>

definition insertURL :: "urlCollection \<Rightarrow> string \<Rightarrow> payload \<times> urlCollection" where
  "insertURL c newURL =
     (case CountDocuments c of
        Inl err \<Rightarrow> (ErrorMessage ''failed when counting database'', c)
      | Inr dbSize \<Rightarrow>
          (let shortURL = FormatInt dbSize 36;
               newDoc = \<lparr>url_ID = 0, OriginalURL = newURL, ShortURL = shortURL, TimesVisited = 0\<rparr>
           in case InsertOne_url c newDoc of
                Inl err \<Rightarrow>
                  (if err = DuplicateKeyError then
                     (case FindOne (\<lambda>r. OriginalURL r = newURL) c of
                        Inl e \<Rightarrow> (urlReceipt [] [], c)
                      | Inr oldDoc \<Rightarrow> (urlReceipt (OriginalURL oldDoc) (ShortURL oldDoc), c))
                   else (ErrorMessage ''failed when inserting into database'', c))
              | Inr (insertedID, c') \<Rightarrow> (urlReceipt newURL shortURL, c')))"

text \<open>
  getOriginalURL. The increment is only reached when FindOne found a document; a failed
  UpdateOne is logged and the original URL is returned all the same.
\<close>

definition getOriginalURL :: "urlCollection \<Rightarrow> string \<Rightarrow> string \<times> urlCollection" where
  "getOriginalURL c sURL =
     (case FindOne (\<lambda>r. ShortURL r = sURL) c of
        Inl err \<Rightarrow> ([], c)
      | Inr foundDoc \<Rightarrow>
          (case UpdateOne (\<lambda>r. url_ID r = url_ID foundDoc)
                  (\<lambda>r. r\<lparr>TimesVisited := TimesVisited r + 1\<rparr>) c of
             Inl err \<Rightarrow> (OriginalURL foundDoc, c)
           | Inr c' \<Rightarrow> (OriginalURL foundDoc, c')))"

text \<open>
  A history of the URL collection: the calls the server makes on it, in order, starting
  from some collection. The collections the program can reach are \<open>run_url ops []\<close>.
\<close>

datatype url_op = Mint string | Resolve string

fun run_url :: "url_op list \<Rightarrow> urlCollection \<Rightarrow> urlCollection" where
  "run_url [] c = c"
| "run_url (Mint u # ops) c = run_url ops (snd (insertURL c u))"
| "run_url (Resolve s # ops) c = run_url ops (snd (getOriginalURL c s))"

text \<open>The invariant of such histories: the record at position \<open>i\<close> carries the code of \<open>i\<close>.\<close>

definition codes_by_position :: "urlCollection \<Rightarrow> bool" where
  "codes_by_position c = (map ShortURL c = map (\<lambda>i. FormatInt (int i) 36) [0..<length c])"

section \<open>Exercise tracker (exercisedao.go)\<close>

text \<open>
  A stored user document. createExerciseUser inserts \<open>{username}\<close> only, so a user that
  has no exercise yet has no \<open>log\<close> field: \<open>doc_log = None\<close>.
\<close>

record userDoc =
  doc_id :: ObjectID
  doc_username :: string
  doc_log :: "ExerciseRecord list option"

type_synonym exerciseCollection = "userDoc list"

subsection \<open>The aggregation pipeline\<close>

text \<open>
  The value of the \<open>log\<close> field while a document travels through the pipeline: the array
  of the stored document, or one embedded entry after \<open>$unwind\<close>.
\<close>

datatype logValue = Entry ExerciseRecord | Arr "logValue list"

record aggDoc =
  agg_id :: ObjectID
  agg_username :: string
  agg_count :: "int option"
  agg_log :: "logValue option"

datatype cond =
    IdEq ObjectID
  | LogExists
  | LogDateGte int
  | LogDateLte int
  | AndCond cond cond

datatype stage =
    Match cond
  | AddFieldsCountSizeLog
  | Unwind
  | SortLogDate
  | Limit int
  | Group

text \<open>The dates that the path \<open>log.date\<close> reaches in a document.\<close>

definition entry_dates :: "logValue \<Rightarrow> int list" where
  "entry_dates v = (case v of Entry e \<Rightarrow> [Date e] | Arr vs \<Rightarrow> [])"

definition log_dates :: "aggDoc \<Rightarrow> int list" where
  "log_dates d =
     (case agg_log d of
        None \<Rightarrow> []
      | Some (Entry e) \<Rightarrow> [Date e]
      | Some (Arr vs) \<Rightarrow> concat (map entry_dates vs))"

fun holds :: "cond \<Rightarrow> aggDoc \<Rightarrow> bool" where
  "holds (IdEq oid) d = (agg_id d = oid)"
| "holds LogExists d = (agg_log d \<noteq> None)"
| "holds (LogDateGte t) d = list_ex (\<lambda>x. t \<le> x) (log_dates d)"
| "holds (LogDateLte t) d = list_ex (\<lambda>x. x \<le> t) (log_dates d)"
| "holds (AndCond a b) d = (holds a d \<and> holds b d)"

text \<open>\<open>$addFields {count: {$size: "$log"}}\<close>: \<open>$size\<close> fails on anything but an array.\<close>

fun addCount :: "aggDoc list \<Rightarrow> store_error + aggDoc list" where
  "addCount [] = Inr []"
| "addCount (d # ds) =
     (case agg_log d of
        Some (Arr vs) \<Rightarrow>
          (case addCount ds of
             Inl e \<Rightarrow> Inl e
           | Inr ds' \<Rightarrow> Inr (d\<lparr>agg_count := Some (int (length vs))\<rparr> # ds'))
      | _ \<Rightarrow> Inl CommandError)"

text \<open>
  \<open>$unwind "$log"\<close>: one document per element of the array and none for an empty array or
  a missing field; a value that is not an array is passed on as it is.
\<close>

definition unwind :: "aggDoc \<Rightarrow> aggDoc list" where
  "unwind d =
     (case agg_log d of
        None \<Rightarrow> []
      | Some (Entry e) \<Rightarrow> [d]
      | Some (Arr vs) \<Rightarrow> map (\<lambda>v. d\<lparr>agg_log := Some v\<rparr>) vs)"

text \<open>
  Modelled from the spec: the store's \<open>$sort {"log.date": 1}\<close>. Section 4.3 of the
  specification gives its contract: rows in ascending date order, rows of equal date in
  the order they had (a stable sort). \<open>sort_key\<close> is the stable insertion sort of the
  library. A document without a date sorts first, an array by its least date.
\<close>

definition sort_date :: "aggDoc \<Rightarrow> int option" where
  "sort_date d = (case log_dates d of [] \<Rightarrow> None | x # xs \<Rightarrow> Some (fold min xs x))"

text \<open>
  \<open>$group\<close> by \<open>_id\<close> with \<open>$first\<close> of \<open>username\<close> and \<open>count\<close> and \<open>$push\<close> of \<open>log\<close>:
  one document per id, and no document when no row comes in.
\<close>

definition pushed :: "aggDoc list \<Rightarrow> logValue list" where
  "pushed rs = concat (map (\<lambda>r. case agg_log r of None \<Rightarrow> [] | Some v \<Rightarrow> [v]) rs)"

fun group_by_id :: "aggDoc list \<Rightarrow> aggDoc list" where
  "group_by_id [] = []"
| "group_by_id (r # rs) =
     \<lparr>agg_id = agg_id r, agg_username = agg_username r, agg_count = agg_count r,
      agg_log = Some (Arr (pushed (r # filter (\<lambda>x. agg_id x = agg_id r) rs)))\<rparr>
     # group_by_id (filter (\<lambda>x. agg_id x \<noteq> agg_id r) rs)"

text \<open>\<open>$limit\<close> takes a positive number; the server rejects the pipeline otherwise.\<close>

definition run_stage :: "stage \<Rightarrow> aggDoc list \<Rightarrow> store_error + aggDoc list" where
  "run_stage s ds =
     (case s of
        Match c \<Rightarrow> Inr (filter (holds c) ds)
      | AddFieldsCountSizeLog \<Rightarrow> addCount ds
      | Unwind \<Rightarrow> Inr (concat (map unwind ds))
      | SortLogDate \<Rightarrow> Inr (sort_key sort_date ds)
      | Limit n \<Rightarrow> (if n \<le> 0 then Inl CommandError else Inr (take (nat n) ds))
      | Group \<Rightarrow> Inr (group_by_id ds))"

fun run_pipe :: "stage list \<Rightarrow> aggDoc list \<Rightarrow> store_error + aggDoc list" where
  "run_pipe [] ds = Inr ds"
| "run_pipe (s # ss) ds =
     (case run_stage s ds of Inl e \<Rightarrow> Inl e | Inr ds' \<Rightarrow> run_pipe ss ds')"

definition toAgg :: "userDoc \<Rightarrow> aggDoc" where
  "toAgg d = \<lparr>agg_id = doc_id d, agg_username = doc_username d, agg_count = None,
              agg_log = map_option (\<lambda>es. Arr (map Entry es)) (doc_log d)\<rparr>"

text \<open>
  Collection.Aggregate returns a cursor over the documents the pipeline produces, or an
  error and no cursor when the server rejects the command. Running out of documents is
  not an error of the cursor: \<open>Cursor.Err\<close> is nil after \<open>Cursor.Next\<close> returned false
  on an exhausted cursor.
\<close>

record Cursor =
  batch :: "aggDoc list"
  cursor_Err :: "store_error option"

definition Aggregate :: "exerciseCollection \<Rightarrow> stage list \<Rightarrow> store_error + Cursor" where
  "Aggregate c pipe =
     (case run_pipe pipe (map toAgg c) of
        Inl e \<Rightarrow> Inl e
      | Inr ds \<Rightarrow> Inr \<lparr>batch = ds, cursor_Err = None\<rparr>)"

text \<open>
  Decoding into ExerciseUserRecord: the struct has the fields \<open>_id\<close>, \<open>username\<close> and
  \<open>log\<close>; any other field of the document (such as \<open>count\<close>) has no field to go to and
  is dropped. An ObjectID decodes into a string as its hex form. A \<open>log\<close> that is not an
  array of entries does not decode.
\<close>

fun entries :: "logValue list \<Rightarrow> ExerciseRecord list option" where
  "entries [] = Some []"
| "entries (Entry e # vs) = map_option (\<lambda>es. e # es) (entries vs)"
| "entries (Arr ws # vs) = None"

definition Decode :: "aggDoc \<Rightarrow> ExerciseUserRecord option" where
  "Decode d =
     (case agg_log d of
        None \<Rightarrow> Some \<lparr>ID = Hex (agg_id d), Username = agg_username d, Log = []\<rparr>
      | Some (Entry e) \<Rightarrow> None
      | Some (Arr vs) \<Rightarrow>
          map_option (\<lambda>es. \<lparr>ID = Hex (agg_id d), Username = agg_username d, Log = es\<rparr>)
            (entries vs))"

definition Decode_userDoc :: "userDoc \<Rightarrow> ExerciseUserRecord" where
  "Decode_userDoc d =
     \<lparr>ID = Hex (doc_id d), Username = doc_username d,
      Log = (case doc_log d of None \<Rightarrow> [] | Some es \<Rightarrow> es)\<rparr>"

subsection \<open>getExerciseLogsFromUser\<close>

definition matchStage :: "ObjectID \<Rightarrow> stage" where
  "matchStage userIDObject = Match (AndCond (IdEq userIDObject) LogExists)"

definition addFieldsStage :: stage where
  "addFieldsStage = AddFieldsCountSizeLog"

definition unwindStage :: stage where
  "unwindStage = Unwind"

definition sortStage :: stage where
  "sortStage = SortLogDate"

definition regroupStage :: stage where
  "regroupStage = Group"

text \<open>
  The pipeline that getExerciseLogsFromUser builds (lines 232 to 321). A parameter is parsed
  only when it is not empty; its validity flag is the success of the parse.
\<close>

definition pipeline :: "ObjectID \<Rightarrow> string \<Rightarrow> string \<Rightarrow> string \<Rightarrow> stage list" where
  "pipeline userIDObject fromDate toDate limit =
     (let pipe = [matchStage userIDObject, addFieldsStage];
          fromDateObj = (if fromDate \<noteq> [] then Parse fromDate else None);
          toDateObj = (if toDate \<noteq> [] then Parse toDate else None);
          limitVal = (if limit \<noteq> [] then Atoi limit else None)
      in if fromDateObj \<noteq> None \<or> toDateObj \<noteq> None \<or> limitVal \<noteq> None then
           pipe @ [unwindStage, sortStage]
           @ (case (fromDateObj, toDateObj) of
                (Some f, Some t) \<Rightarrow> [Match (AndCond (LogDateGte f) (LogDateLte t))]
              | (Some f, None) \<Rightarrow> [Match (LogDateGte f)]
              | (None, Some t) \<Rightarrow> [Match (LogDateLte t)]
              | (None, None) \<Rightarrow> [])
           @ (case limitVal of Some n \<Rightarrow> [Limit n] | None \<Rightarrow> [])
           @ [regroupStage]
         else pipe)"

datatype go_panic = NilPointerDereference

text \<open>
  When Aggregate fails the error is logged and the nil cursor is used all the same:
  \<open>cursor.Next\<close> dereferences it. The lookup of the bare user record is made only when
  \<open>cursor.Err\<close> reports an error.
\<close>

definition getExerciseLogsFromUser ::
    "exerciseCollection \<Rightarrow> string \<Rightarrow> string \<Rightarrow> string \<Rightarrow> string \<Rightarrow> go_panic + payload" where
  "getExerciseLogsFromUser c userID fromDate toDate limit =
     (if \<not> IsValidObjectID userID then Inr (ErrorMessage ''invalid id'')
      else case ObjectIDFromHex userID of
        None \<Rightarrow> Inr (ErrorMessage ''invalid id'')
      | Some userIDObject \<Rightarrow>
          (case Aggregate c (pipeline userIDObject fromDate toDate limit) of
             Inl err \<Rightarrow> Inl NilPointerDereference
           | Inr cursor \<Rightarrow>
               (let docJSON =
                      (case batch cursor of
                         [] \<Rightarrow> NoBytes
                       | d # ds \<Rightarrow>
                           (case Decode d of
                              None \<Rightarrow> ErrorMessage ''Cursor.Decode failed''
                            | Some doc \<Rightarrow> ExerciseUserRecordJSON doc))
                in case cursor_Err cursor of
                     Some err \<Rightarrow>
                       (case FindOne (\<lambda>d. doc_id d = userIDObject) c of
                          Inl e \<Rightarrow> Inr (ErrorMessage ''invalid user'')
                        | Inr foundDoc \<Rightarrow> Inr (ExerciseUserRecordJSON (Decode_userDoc foundDoc)))
                   | None \<Rightarrow> Inr docJSON)))"

subsection \<open>addExerciseToUser\<close>

text \<open>
  Collection.FindOneAndUpdate with \<open>$push\<close> on \<open>log\<close>: the entry is appended to the log of
  the first matching document (the field is created when it is missing) and the document
  is returned as it was before the update; ErrNoDocuments when nothing matches.
\<close>

definition push_log :: "ExerciseRecord \<Rightarrow> userDoc \<Rightarrow> userDoc" where
  "push_log e d = d\<lparr>doc_log := Some ((case doc_log d of None \<Rightarrow> [] | Some es \<Rightarrow> es) @ [e])\<rparr>"

definition FindOneAndUpdate ::
    "('a \<Rightarrow> bool) \<Rightarrow> ('a \<Rightarrow> 'a) \<Rightarrow> 'a list \<Rightarrow> store_error + ('a \<times> 'a list)" where
  "FindOneAndUpdate flt f c =
     (case find flt c of
        None \<Rightarrow> Inl ErrNoDocuments
      | Some d \<Rightarrow> Inr (d, update_first flt f c))"

text \<open>\<open>now\<close> is the reading of the clock that \<open>time.Now\<close> makes when the date is empty.\<close>

definition addExerciseToUser ::
    "int \<Rightarrow> exerciseCollection \<Rightarrow> string \<Rightarrow> string \<Rightarrow> string \<Rightarrow> string
      \<Rightarrow> payload \<times> exerciseCollection" where
  "addExerciseToUser now c userID desc duration date =
     (if \<not> IsValidObjectID userID then (ErrorMessage ''invalid id'', c)
      else case ObjectIDFromHex userID of
        None \<Rightarrow> (ErrorMessage ''invalid id'', c)
      | Some userIDObject \<Rightarrow>
          (case Atoi duration of
             None \<Rightarrow> (ErrorMessage ''invalid duration'', c)
           | Some durationValue \<Rightarrow>
               (case (if date \<noteq> [] then Parse date else Some now) of
                  None \<Rightarrow> (ErrorMessage ''invalid date'', c)
                | Some dateObject \<Rightarrow>
                    (let newExercise = \<lparr>Description = desc, Duration = durationValue,
                                         Date = dateObject\<rparr>
                     in case FindOneAndUpdate (\<lambda>d. doc_id d = userIDObject)
                               (push_log newExercise) c of
                          Inl err \<Rightarrow> (ErrorMessage (''unable to add exercise to'' @ userID), c)
                        | Inr (updatedDoc, c') \<Rightarrow>
                            (ExerciseAddedReceipt (Hex (doc_id updatedDoc))
                               (doc_username updatedDoc) desc durationValue dateObject, c')))))"

subsection \<open>The log that the specification describes\<close>

text \<open>
  Written from the words of the specification (section 4.3, step 3d), to be compared with
  what the pipeline computes: the log sorted by date in ascending order by a stable sort,
  then the entries with \<open>date \<ge> fromDate\<close> (if supplied) and \<open>date \<le> toDate\<close> (if
  supplied), then the first \<open>limit\<close> of those (if supplied).
\<close>

definition filtered_log ::
    "int option \<Rightarrow> int option \<Rightarrow> int option \<Rightarrow> ExerciseRecord list \<Rightarrow> ExerciseRecord list" where
  "filtered_log fromDate toDate limit es =
     (let sorted_log = sort_key Date es;
          in_range = filter (\<lambda>e. (case fromDate of None \<Rightarrow> True | Some f \<Rightarrow> f \<le> Date e)
                               \<and> (case toDate of None \<Rightarrow> True | Some t \<Rightarrow> Date e \<le> t)) sorted_log
      in case limit of None \<Rightarrow> in_range | Some n \<Rightarrow> take (nat n) in_range)"

text \<open>The row that \<open>$unwind\<close> makes of one entry of a user's log, once counted.\<close>

definition row :: "ObjectID \<Rightarrow> string \<Rightarrow> int \<Rightarrow> ExerciseRecord \<Rightarrow> aggDoc" where
  "row oid name n e = \<lparr>agg_id = oid, agg_username = name, agg_count = Some n, agg_log = Some (Entry e)\<rparr>"

section \<open>Properties of the URL shortener\<close>

subsection \<open>Base-36 codes\<close>

lemma FormatInt_0: "FormatInt 0 36 = ''0''"
  by (simp add: FormatInt_def formatBits.simps digits_def)

lemma FormatInt_36: "FormatInt 36 36 = ''10''"
  by (simp add: FormatInt_def formatBits.simps digits_def)

lemma distinct_digits: "distinct digits"
  by (simp add: digits_def)

lemma length_digits: "length digits = 36"
  by (simp add: digits_def)

lemma formatBits_last: "b < 2 \<or> u < b \<Longrightarrow> formatBits u b a = (digits ! u) # a"
  by (subst formatBits.simps) auto

lemma formatBits_acc: "formatBits u b a = formatBits u b [] @ a"
proof (induction u arbitrary: a rule: less_induct)
  case (less u)
  show ?case
  proof (cases "2 \<le> b \<and> b \<le> u")
    case True
    then have lt: "u div b < u" by simp
    have "formatBits u b a = formatBits (u div b) b ((digits ! (u mod b)) # a)"
      using True by (subst formatBits.simps) simp
    also have "\<dots> = formatBits (u div b) b [] @ ((digits ! (u mod b)) # a)"
      using less[OF lt] by blast
    also have "\<dots> = formatBits (u div b) b [digits ! (u mod b)] @ a"
      using less[OF lt, of "[digits ! (u mod b)]"] by simp
    also have "\<dots> = formatBits u b [] @ a"
      using True by (subst (2) formatBits.simps) simp
    finally show ?thesis .
  next
    case False
    then have "b < 2 \<or> u < b" by auto
    then show ?thesis by (simp add: formatBits_last)
  qed
qed

lemma formatBits_step:
  "2 \<le> b \<Longrightarrow> b \<le> u \<Longrightarrow>
   formatBits u b a = formatBits (u div b) b [] @ (digits ! (u mod b)) # a"
proof -
  assume b: "2 \<le> b" "b \<le> u"
  have "formatBits u b a = formatBits (u div b) b ((digits ! (u mod b)) # a)"
    using b by (subst formatBits.simps) simp
  also have "\<dots> = formatBits (u div b) b [] @ (digits ! (u mod b)) # a"
    by (rule formatBits_acc)
  finally show ?thesis .
qed

lemma formatBits_nonempty: "formatBits u b a \<noteq> []"
proof (cases "2 \<le> b \<and> b \<le> u")
  case True
  then show ?thesis using formatBits_step[of b u a] by simp
next
  case False
  then have "b < 2 \<or> u < b" by auto
  then show ?thesis using formatBits_last[of b u a] by simp
qed

lemma digit_inj: "i < 36 \<Longrightarrow> j < 36 \<Longrightarrow> digits ! i = digits ! j \<Longrightarrow> i = j"
  using distinct_digits length_digits by (simp add: nth_eq_iff_index_eq)

lemma formatBits_36_ge:
  "36 \<le> u \<Longrightarrow> formatBits u 36 [] = formatBits (u div 36) 36 [] @ [digits ! (u mod 36)]"
  by (rule formatBits_step) simp_all

lemma formatBits_36_lt: "u < 36 \<Longrightarrow> formatBits u 36 [] = [digits ! u]"
  by (rule formatBits_last) simp

lemma formatBits_inj: "formatBits u 36 [] = formatBits v 36 [] \<Longrightarrow> u = v"
proof (induction u arbitrary: v rule: less_induct)
  case (less u)
  show ?case
  proof (cases "36 \<le> u")
    case u: True
    note eu = formatBits_36_ge[OF u]
    show ?thesis
    proof (cases "36 \<le> v")
      case v: True
      note ev = formatBits_36_ge[OF v]
      from less.prems have e: "formatBits (u div 36) 36 [] @ [digits ! (u mod 36)]
           = formatBits (v div 36) 36 [] @ [digits ! (v mod 36)]"
        unfolding eu ev .
      from e have "formatBits (u div 36) 36 [] = formatBits (v div 36) 36 []" by simp
      moreover have "u div 36 < u" using u by simp
      ultimately have d: "u div 36 = v div 36" using less.IH by blast
      from e have "digits ! (u mod 36) = digits ! (v mod 36)" by simp
      then have m: "u mod 36 = v mod 36" by (intro digit_inj) simp_all
      have "u = 36 * (u div 36) + u mod 36" by simp
      also have "\<dots> = 36 * (v div 36) + v mod 36" unfolding d m ..
      also have "\<dots> = v" by simp
      finally show ?thesis .
    next
      case False
      then have v: "v < 36" by simp
      from less.prems have "formatBits (u div 36) 36 [] @ [digits ! (u mod 36)] = [digits ! v]"
        unfolding eu formatBits_36_lt[OF v] .
      then have "formatBits (u div 36) 36 [] = []" by simp
      then show ?thesis using formatBits_nonempty by blast
    qed
  next
    case False
    then have u: "u < 36" by simp
    note eu = formatBits_36_lt[OF u]
    show ?thesis
    proof (cases "36 \<le> v")
      case v: True
      from less.prems have "[digits ! u] = formatBits (v div 36) 36 [] @ [digits ! (v mod 36)]"
        unfolding eu formatBits_36_ge[OF v] .
      then have "formatBits (v div 36) 36 [] = []" by simp
      then show ?thesis using formatBits_nonempty by blast
    next
      case False
      then have v: "v < 36" by simp
      from less.prems have "digits ! u = digits ! v"
        unfolding eu formatBits_36_lt[OF v] by simp
      then show ?thesis using u v by (intro digit_inj) simp_all
    qed
  qed
qed

lemma FormatInt_inj_nat: "FormatInt (int i) 36 = FormatInt (int j) 36 \<Longrightarrow> i = j"
  by (simp add: FormatInt_def formatBits_inj)

subsection \<open>insertURL and getOriginalURL\<close>

lemma insertURL_fresh:
  "newURL \<notin> set (map OriginalURL c) \<Longrightarrow>
   insertURL c newURL =
     (urlReceipt newURL (FormatInt (int (length c)) 36),
      c @ [\<lparr>url_ID = fresh_id (map url_ID c), OriginalURL = newURL,
             ShortURL = FormatInt (int (length c)) 36, TimesVisited = 0\<rparr>])"
  by (simp add: insertURL_def CountDocuments_def InsertOne_url_def Let_def)

lemma find_Some_mem: "x \<in> set (map f c) \<Longrightarrow> \<exists>r. find (\<lambda>r. f r = x) c = Some r \<and> r \<in> set c \<and> f r = x"
  by (induction c) auto

lemma find_append_new: "x \<notin> set (map f c) \<Longrightarrow> f r = x \<Longrightarrow> find (\<lambda>r. f r = x) (c @ [r]) = Some r"
  by (induction c) auto

lemma insertURL_dup:
  "newURL \<in> set (map OriginalURL c) \<Longrightarrow>
   \<exists>r. find (\<lambda>r. OriginalURL r = newURL) c = Some r \<and> r \<in> set c \<and> OriginalURL r = newURL \<and>
     insertURL c newURL = (urlReceipt newURL (ShortURL r), c)"
  using find_Some_mem[of newURL OriginalURL c]
  by (auto simp add: insertURL_def CountDocuments_def InsertOne_url_def Let_def FindOne_def)

lemma codes_distinct: "codes_by_position c \<Longrightarrow> distinct (map ShortURL c)"
  by (auto simp add: codes_by_position_def distinct_map inj_on_def dest: FormatInt_inj_nat)

lemma update_first_ShortURL:
  "map ShortURL (update_first flt (\<lambda>r. r\<lparr>TimesVisited := g r\<rparr>) c) = map ShortURL c"
  by (induction c) auto

lemma update_first_length: "length (update_first flt f c) = length c"
  by (induction c) auto

lemma codes_insertURL: "codes_by_position c \<Longrightarrow> codes_by_position (snd (insertURL c u))"
proof (cases "u \<in> set (map OriginalURL c)")
  case True
  assume "codes_by_position c"
  with insertURL_dup[OF True] show ?thesis by auto
next
  case False
  assume "codes_by_position c"
  with insertURL_fresh[OF False] show ?thesis by (simp add: codes_by_position_def)
qed

lemma codes_getOriginalURL: "codes_by_position c \<Longrightarrow> codes_by_position (snd (getOriginalURL c s))"
  by (auto simp add: getOriginalURL_def FindOne_def UpdateOne_def codes_by_position_def
      update_first_ShortURL update_first_length split: option.splits)

lemma codes_run: "codes_by_position c \<Longrightarrow> codes_by_position (run_url ops c)"
proof (induction ops arbitrary: c)
  case Nil
  then show ?case by simp
next
  case (Cons a ops)
  then show ?case by (cases a) (simp_all add: codes_insertURL codes_getOriginalURL)
qed

lemma find_distinct_key:
  "distinct (map f c) \<Longrightarrow> r \<in> set c \<Longrightarrow> find (\<lambda>x. f x = f r) c = Some r"
  by (induction c) (auto simp add: image_iff)

lemma insertURL_stored_pair:
  assumes "insertURL c u = (p, c')"
  shows "insertURL c' u = (p, c')"
    and "\<exists>r\<in>set c'. OriginalURL r = u \<and> p = urlReceipt (OriginalURL r) (ShortURL r)"
proof -
  have "insertURL c' u = (p, c') \<and>
        (\<exists>r\<in>set c'. OriginalURL r = u \<and> p = urlReceipt (OriginalURL r) (ShortURL r))"
  proof (cases "u \<in> set (map OriginalURL c)")
    case True
    from insertURL_dup[OF True] assms show ?thesis by auto
  next
    case False
    let ?r = "\<lparr>url_ID = fresh_id (map url_ID c), OriginalURL = u,
               ShortURL = FormatInt (int (length c)) 36, TimesVisited = 0\<rparr>"
    from insertURL_fresh[OF False] assms
    have c': "c' = c @ [?r]" and p: "p = urlReceipt u (FormatInt (int (length c)) 36)"
      by auto
    have f: "find (\<lambda>r. OriginalURL r = u) (c @ [?r]) = Some ?r"
      using False by (intro find_append_new) auto
    have "u \<in> set (map OriginalURL c')" using c' by simp
    then have "insertURL c' u = (urlReceipt u (ShortURL ?r), c')"
      using f c'
      by (auto simp add: insertURL_def CountDocuments_def InsertOne_url_def Let_def FindOne_def)
    then show ?thesis using c' p by auto
  qed
  then show "insertURL c' u = (p, c')"
    and "\<exists>r\<in>set c'. OriginalURL r = u \<and> p = urlReceipt (OriginalURL r) (ShortURL r)"
    by blast+
qed

text \<open>
  Claim C5. A call of insertURL that inserts a record (the collection it leaves differs
  from the one it found) appends exactly one record, whose short code is the base-36
  numeral of the number of records counted at the call and whose visit counter is 0, and
  returns that code; the numeral of 0 is "0" and the numeral of 36 is "10".
\<close>

theorem insertURL_new_record:
  assumes "insertURL c newURL = (p, c')" and "c' \<noteq> c"
  shows "(\<exists>oid. c' = c @ [\<lparr>url_ID = oid, OriginalURL = newURL,
                  ShortURL = FormatInt (int (length c)) 36, TimesVisited = 0\<rparr>])
         \<and> p = urlReceipt newURL (FormatInt (int (length c)) 36)
         \<and> FormatInt 0 36 = ''0'' \<and> FormatInt 36 36 = ''10''"
proof (cases "newURL \<in> set (map OriginalURL c)")
  case True
  from insertURL_dup[OF True] assms show ?thesis by auto
next
  case False
  from insertURL_fresh[OF False] assms show ?thesis
    by (auto simp add: FormatInt_0 FormatInt_36)
qed

theorem insertURL_new_record_witness:
  "(\<exists>oid. [\<lparr>url_ID = 1, OriginalURL = ''example.com'', ShortURL = ''0'', TimesVisited = 0\<rparr>]
      = [] @ [\<lparr>url_ID = oid, OriginalURL = ''example.com'',
                ShortURL = FormatInt (int (length ([] :: urlCollection))) 36, TimesVisited = 0\<rparr>])
   \<and> insertURL [] ''example.com''
       = (urlReceipt ''example.com'' ''0'',
          [\<lparr>url_ID = 1, OriginalURL = ''example.com'', ShortURL = ''0'', TimesVisited = 0\<rparr>])"
proof -
  have run: "insertURL [] ''example.com''
       = (urlReceipt ''example.com'' ''0'',
          [\<lparr>url_ID = 1, OriginalURL = ''example.com'', ShortURL = ''0'', TimesVisited = 0\<rparr>])"
    by (simp add: insertURL_def CountDocuments_def InsertOne_url_def fresh_id_def FormatInt_0 Let_def)
  have changed: "[\<lparr>url_ID = 1, OriginalURL = ''example.com'', ShortURL = ''0'',
                   TimesVisited = 0\<rparr>] \<noteq> ([] :: urlCollection)"
    by simp
  from insertURL_new_record[OF run changed] run show ?thesis by blast
qed

text \<open>
  Claim C6. Whatever a call of insertURL on an original URL returned and left in the
  collection, a further call with the same original URL leaves the collection as it is
  (no record is inserted) and returns the same payload, which is the stored pair of
  original URL and short code of a record of the collection.
\<close>

theorem insertURL_idempotent:
  assumes "insertURL c u = (p, c')"
  shows "insertURL c' u = (p, c')
         \<and> (\<exists>r\<in>set c'. OriginalURL r = u \<and> p = urlReceipt (OriginalURL r) (ShortURL r))"
  using insertURL_stored_pair[OF assms] by blast

theorem insertURL_idempotent_witness:
  "insertURL [\<lparr>url_ID = 1, OriginalURL = ''example.com'', ShortURL = ''0'', TimesVisited = 0\<rparr>]
       ''example.com''
     = (urlReceipt ''example.com'' ''0'',
        [\<lparr>url_ID = 1, OriginalURL = ''example.com'', ShortURL = ''0'', TimesVisited = 0\<rparr>])"
proof -
  have first: "insertURL [] ''example.com''
       = (urlReceipt ''example.com'' ''0'',
          [\<lparr>url_ID = 1, OriginalURL = ''example.com'', ShortURL = ''0'', TimesVisited = 0\<rparr>])"
    by (simp add: insertURL_def CountDocuments_def InsertOne_url_def fresh_id_def FormatInt_0 Let_def)
  from insertURL_idempotent[OF first] show ?thesis by blast
qed

text \<open>
  Claim C7. In every collection reached from the empty one by calls of insertURL and
  getOriginalURL, a call of insertURL on \<open>u\<close> returns a receipt for \<open>u\<close>, and
  getOriginalURL on the short code of that receipt returns \<open>u\<close>; getOriginalURL compares
  the stored \<open>short_url\<close> with its argument by equality of strings.
\<close>

theorem getOriginalURL_insertURL_roundtrip:
  assumes "insertURL (run_url ops []) u = (p, c')"
  shows "\<exists>s. p = urlReceipt u s \<and> fst (getOriginalURL c' s) = u"
proof -
  have "codes_by_position (run_url ops [])"
    by (rule codes_run) (simp add: codes_by_position_def)
  then have "codes_by_position (snd (insertURL (run_url ops []) u))"
    by (rule codes_insertURL)
  then have d: "distinct (map ShortURL c')"
    using assms by (simp add: codes_distinct)
  from insertURL_stored_pair(2)[OF assms]
  obtain r where r: "r \<in> set c'" "OriginalURL r = u" "p = urlReceipt u (ShortURL r)"
    by auto
  have "fst (getOriginalURL c' (ShortURL r)) = u"
    using find_distinct_key[OF d r(1)] r(2)
    by (simp add: getOriginalURL_def FindOne_def UpdateOne_def)
  with r(3) show ?thesis by blast
qed

theorem getOriginalURL_insertURL_roundtrip_witness:
  "\<exists>s. urlReceipt ''b.org'' ''1'' = urlReceipt ''b.org'' s
      \<and> fst (getOriginalURL
          [\<lparr>url_ID = 1, OriginalURL = ''a.com'', ShortURL = ''0'', TimesVisited = 1\<rparr>,
           \<lparr>url_ID = 2, OriginalURL = ''b.org'', ShortURL = ''1'', TimesVisited = 0\<rparr>] s)
        = ''b.org''"
proof -
  have h: "run_url [Mint ''a.com'', Resolve ''0''] []
       = [\<lparr>url_ID = 1, OriginalURL = ''a.com'', ShortURL = ''0'', TimesVisited = 1\<rparr>]"
    by (simp add: insertURL_def getOriginalURL_def CountDocuments_def InsertOne_url_def
        FindOne_def UpdateOne_def fresh_id_def FormatInt_0 Let_def)
  have one: "FormatInt 1 36 = ''1''"
    by (simp add: FormatInt_def formatBits.simps digits_def)
  have m: "insertURL (run_url [Mint ''a.com'', Resolve ''0''] []) ''b.org''
       = (urlReceipt ''b.org'' ''1'',
          [\<lparr>url_ID = 1, OriginalURL = ''a.com'', ShortURL = ''0'', TimesVisited = 1\<rparr>,
           \<lparr>url_ID = 2, OriginalURL = ''b.org'', ShortURL = ''1'', TimesVisited = 0\<rparr>])"
    unfolding h
    by (simp add: insertURL_def CountDocuments_def InsertOne_url_def fresh_id_def one Let_def)
  from getOriginalURL_insertURL_roundtrip[OF m] show ?thesis .
qed

text \<open>
  Claim C8. When no stored record carries the short code, getOriginalURL returns the
  empty string and leaves the collection, hence every visit counter, as it was.
\<close>

theorem getOriginalURL_unknown_code:
  assumes "sURL \<notin> set (map ShortURL c)"
  shows "getOriginalURL c sURL = ([], c)"
proof -
  from assms have "find (\<lambda>r. ShortURL r = sURL) c = None"
    by (induction c) auto
  then show ?thesis by (simp add: getOriginalURL_def FindOne_def)
qed

theorem getOriginalURL_unknown_code_witness:
  "getOriginalURL
     [\<lparr>url_ID = 1, OriginalURL = ''a.com'', ShortURL = ''0'', TimesVisited = 4\<rparr>] ''zz''
   = ([], [\<lparr>url_ID = 1, OriginalURL = ''a.com'', ShortURL = ''0'', TimesVisited = 4\<rparr>])"
proof -
  have h: "''zz'' \<notin> set (map ShortURL
     [\<lparr>url_ID = 1, OriginalURL = ''a.com'', ShortURL = ''0'', TimesVisited = 4\<rparr>])"
    by simp
  from getOriginalURL_unknown_code[OF h] show ?thesis .
qed

section \<open>Properties of the exercise tracker\<close>

subsection \<open>Parsing and the pipeline that is built\<close>

lemma Atoi_Nil: "Atoi [] = None"
  by (simp add: Atoi_def)

lemma Parse_Nil: "Parse [] = None"
  by (simp add: Parse_def)

lemma parse_guard: "(if s \<noteq> [] then Parse s else None) = Parse s"
  by (simp add: Parse_Nil)

lemma atoi_guard: "(if s \<noteq> [] then Atoi s else None) = Atoi s"
  by (simp add: Atoi_Nil)

lemma pipeline_alt:
  "pipeline oid fromDate toDate limit =
     (if Parse fromDate \<noteq> None \<or> Parse toDate \<noteq> None \<or> Atoi limit \<noteq> None then
        [matchStage oid, addFieldsStage, unwindStage, sortStage]
        @ (case (Parse fromDate, Parse toDate) of
             (Some f, Some t) \<Rightarrow> [Match (AndCond (LogDateGte f) (LogDateLte t))]
           | (Some f, None) \<Rightarrow> [Match (LogDateGte f)]
           | (None, Some t) \<Rightarrow> [Match (LogDateLte t)]
           | (None, None) \<Rightarrow> [])
        @ (case Atoi limit of Some n \<Rightarrow> [Limit n] | None \<Rightarrow> [])
        @ [regroupStage]
      else [matchStage oid, addFieldsStage])"
  unfolding pipeline_def Let_def parse_guard atoi_guard by simp


lemma run_pipe_bad_limit:
  "n \<le> 0 \<Longrightarrow> Limit n \<in> set p \<Longrightarrow> \<exists>e. run_pipe p ds = Inl e"
proof (induction p arbitrary: ds)
  case Nil
  then show ?case by simp
next
  case (Cons s p)
  show ?case
  proof (cases "s = Limit n")
    case True
    then show ?thesis using Cons.prems(1) by (simp add: run_stage_def)
  next
    case False
    then have "Limit n \<in> set p" using Cons.prems(2) by simp
    from Cons.IH[OF Cons.prems(1) this] show ?thesis
      by (cases "run_stage s ds") auto
  qed
qed

lemma limit_in_pipeline:
  "Atoi limit = Some n \<Longrightarrow> Limit n \<in> set (pipeline oid fromDate toDate limit)"
  by (simp add: pipeline_alt)

lemma limit_notin_pipeline:
  "Atoi limit = None \<Longrightarrow> Limit n \<notin> set (pipeline oid fromDate toDate limit)"
  by (auto simp add: pipeline_alt matchStage_def addFieldsStage_def unwindStage_def
      sortStage_def regroupStage_def split: option.splits)

lemma oid_a1: "ObjectIDFromHex ''0000000000000000000000a1'' = Some 161"
  by (simp add: ObjectIDFromHex_def hexval_def)

lemma hex_a1: "Hex 161 = ''0000000000000000000000a1''"
  by (simp add: Hex_def upt_rec)

lemma atoi_0: "Atoi ''0'' = Some 0"
  by (simp add: Atoi_def isDigit_def decimal_def)

lemma atoi_1: "Atoi ''1'' = Some 1"
  by (simp add: Atoi_def isDigit_def decimal_def)

lemma atoi_m5: "Atoi ''-5'' = Some (- 5)"
  by (simp add: Atoi_def isDigit_def decimal_def)

lemma atoi_abc: "Atoi ''abc'' = None"
  by (simp add: Atoi_def isDigit_def decimal_def)

lemma parse_0110: "Parse ''2023-01-10'' = Some 1673308800000"
  by (simp add: Parse_def isDigit_def decimal_def daysIn_def daysBefore_def isLeap_def unixMilli_def)


lemma oid_invalid: "\<not> IsValidObjectID ''xyz''"
  by (simp add: IsValidObjectID_def ObjectIDFromHex_def)

subsection \<open>Queries that match no document with a log\<close>

lemma match_no_log:
  "\<forall>x\<in>set c. doc_id x = oid \<longrightarrow> doc_log x = None \<Longrightarrow>
   filter (holds (AndCond (IdEq oid) LogExists)) (map toAgg c) = []"
  by (induction c) (auto simp add: toAgg_def)

lemma run_pipe_no_match:
  assumes "\<forall>x\<in>set c. doc_id x = oid \<longrightarrow> doc_log x = None"
  shows "run_pipe (pipeline oid fromDate toDate limit) (map toAgg c) =
           (case Atoi limit of
              None \<Rightarrow> Inr []
            | Some n \<Rightarrow> if n \<le> 0 then Inl CommandError else Inr [])"
  using match_no_log[OF assms]
  by (cases "Parse fromDate"; cases "Parse toDate"; cases "Atoi limit")
    (simp_all add: pipeline_alt run_stage_def matchStage_def addFieldsStage_def
      unwindStage_def sortStage_def regroupStage_def)

lemma query_no_match:
  assumes "ObjectIDFromHex userID = Some oid"
    and "\<forall>x\<in>set c. doc_id x = oid \<longrightarrow> doc_log x = None"
  shows "getExerciseLogsFromUser c userID fromDate toDate limit =
           (case Atoi limit of
              None \<Rightarrow> Inr NoBytes
            | Some n \<Rightarrow> if n \<le> 0 then Inl NilPointerDereference else Inr NoBytes)"
  using assms(1) run_pipe_no_match[OF assms(2), of fromDate toDate limit]
  by (cases "Atoi limit")
    (simp_all add: getExerciseLogsFromUser_def IsValidObjectID_def Aggregate_def)


subsection \<open>The pipeline on a user with a log\<close>

lemma filter_unique_key:
  "distinct (map f c) \<Longrightarrow> d \<in> set c \<Longrightarrow> P d \<Longrightarrow> filter (\<lambda>x. f x = f d \<and> P x) c = [d]"
proof (induction c)
  case Nil
  then show ?case by simp
next
  case (Cons a c)
  show ?case
  proof (cases "a = d")
    case True
    have "filter (\<lambda>x. f x = f d \<and> P x) c = []"
      using Cons.prems(1) True by (auto simp add: filter_empty_conv image_iff)
    then show ?thesis using True Cons.prems(3) by simp
  next
    case False
    then have "d \<in> set c" using Cons.prems(2) by simp
    moreover have "f a \<noteq> f d" using Cons.prems(1) \<open>d \<in> set c\<close> by (auto simp add: image_iff)
    ultimately show ?thesis using Cons by simp
  qed
qed

lemma holds_toAgg:
  "holds (AndCond (IdEq i) LogExists) (toAgg x) = (doc_id x = i \<and> doc_log x \<noteq> None)"
  by (simp add: toAgg_def)

lemma match_user:
  assumes "distinct (map doc_id c)" and "d \<in> set c" and "doc_log d = Some es"
  shows "filter (holds (AndCond (IdEq (doc_id d)) LogExists)) (map toAgg c) = [toAgg d]"
proof -
  have 1: "filter (holds (AndCond (IdEq (doc_id d)) LogExists)) (map toAgg c)
        = map toAgg (filter (\<lambda>x. doc_id x = doc_id d \<and> doc_log x \<noteq> None) c)"
    unfolding filter_map o_def holds_toAgg ..
  have 2: "filter (\<lambda>x. doc_id x = doc_id d \<and> doc_log x \<noteq> None) c = [d]"
    using assms by (intro filter_unique_key) simp_all
  show ?thesis unfolding 1 2 by (simp only: list.map)
qed

lemma addCount_user:
  "doc_log d = Some es \<Longrightarrow>
   addCount [toAgg d] = Inr [(toAgg d)\<lparr>agg_count := Some (int (length es))\<rparr>]"
  by (simp add: toAgg_def)

lemma unwind_user:
  "doc_log d = Some es \<Longrightarrow>
   unwind ((toAgg d)\<lparr>agg_count := Some n\<rparr>) = map (row (doc_id d) (doc_username d) n) es"
  by (simp add: unwind_def toAgg_def row_def o_def)

lemma sort_date_row: "sort_date (row oid name n e) = Some (Date e)"
  by (simp add: sort_date_def log_dates_def row_def)

lemma insort_key_map_Some:
  assumes "\<And>x. k (g x) = Some (h x)"
  shows "insort_key k (g x) (map g ys) = map g (insort_key h x ys)"
  by (induction ys) (simp_all add: assms)

lemma sort_key_map_Some:
  assumes "\<And>x. k (g x) = Some (h x)"
  shows "sort_key k (map g xs) = map g (sort_key h xs)"
  by (induction xs) (simp_all add: insort_key_map_Some[of k g h, OF assms])

lemma sort_rows:
  "sort_key sort_date (map (row oid name n) es) = map (row oid name n) (sort_key Date es)"
  by (rule sort_key_map_Some) (rule sort_date_row)

lemma log_dates_row: "log_dates (row oid name n e) = [Date e]"
  by (simp add: log_dates_def row_def)

lemma filter_rows:
  "filter (holds c) (map (row oid name n) es) = map (row oid name n) (filter (\<lambda>e. holds c (row oid name n e)) es)"
  by (simp add: filter_map o_def)

lemma pushed_rows: "pushed (map (row oid name n) es) = map Entry es"
  by (induction es) (simp_all add: pushed_def row_def)

lemma group_rows:
  "es \<noteq> [] \<Longrightarrow>
   group_by_id (map (row oid name n) es)
   = [\<lparr>agg_id = oid, agg_username = name, agg_count = Some n, agg_log = Some (Arr (map Entry es))\<rparr>]"
proof (cases es)
  case Nil
  assume "es \<noteq> []" with Nil show ?thesis by simp
next
  case (Cons e es')
  have same: "filter (\<lambda>x. agg_id x = oid) (map (row oid name n) es') = map (row oid name n) es'"
    by (simp add: filter_map o_def row_def)
  have other: "filter (\<lambda>x. agg_id x \<noteq> oid) (map (row oid name n) es') = []"
    by (simp add: filter_empty_conv row_def)
  have "pushed (row oid name n e # map (row oid name n) es') = map Entry (e # es')"
    using pushed_rows[of oid name n "e # es'"] by simp
  then show ?thesis using Cons same other
    by (simp add: row_def[of oid name n e])
qed

lemma entries_map_Entry: "entries (map Entry es) = Some es"
  by (induction es) simp_all

lemma Decode_grouped:
  "Decode \<lparr>agg_id = oid, agg_username = name, agg_count = k, agg_log = Some (Arr (map Entry es))\<rparr>
   = Some \<lparr>ID = Hex oid, Username = name, Log = es\<rparr>"
  by (simp add: Decode_def entries_map_Entry)

lemma run_pipe_user:
  assumes "d \<in> set c" and "distinct (map doc_id c)" and "doc_log d = Some es"
    and "Parse fromDate \<noteq> None \<or> Parse toDate \<noteq> None \<or> Atoi limit \<noteq> None"
    and "\<forall>n. Atoi limit = Some n \<longrightarrow> 0 < n"
    and "filtered_log (Parse fromDate) (Parse toDate) (Atoi limit) es \<noteq> []"
  shows "run_pipe (pipeline (doc_id d) fromDate toDate limit) (map toAgg c)
         = Inr [\<lparr>agg_id = doc_id d, agg_username = doc_username d,
                 agg_count = Some (int (length es)),
                 agg_log = Some (Arr (map Entry
                   (filtered_log (Parse fromDate) (Parse toDate) (Atoi limit) es)))\<rparr>]"
proof -
  note start = match_user[OF assms(2) assms(1) assms(3)] addCount_user[OF assms(3)]
    unwind_user[OF assms(3)]
  note defs = pipeline_alt run_stage_def matchStage_def addFieldsStage_def unwindStage_def
    sortStage_def regroupStage_def sort_rows filter_rows take_map filtered_log_def
    log_dates_row
  show ?thesis
  proof (cases "Parse fromDate")
    case fN: None
    show ?thesis
    proof (cases "Parse toDate")
      case tN: None
      show ?thesis
      proof (cases "Atoi limit")
        case None
        with fN tN assms(4) show ?thesis by simp
      next
        case (Some n)
        with fN tN assms(5,6) start show ?thesis
          by (simp add: defs group_rows)
      qed
    next
      case tS: (Some t)
      show ?thesis
      proof (cases "Atoi limit")
        case None
        with fN tS assms(5,6) start show ?thesis
          by (simp add: defs group_rows)
      next
        case (Some n)
        with fN tS assms(5,6) start show ?thesis
          by (simp add: defs group_rows)
      qed
    qed
  next
    case fS: (Some f)
    show ?thesis
    proof (cases "Parse toDate")
      case tN: None
      show ?thesis
      proof (cases "Atoi limit")
        case None
        with fS tN assms(5,6) start show ?thesis
          by (simp add: defs group_rows)
      next
        case (Some n)
        with fS tN assms(5,6) start show ?thesis
          by (simp add: defs group_rows)
      qed
    next
      case tS: (Some t)
      show ?thesis
      proof (cases "Atoi limit")
        case None
        with fS tS assms(5,6) start show ?thesis
          by (simp add: defs group_rows)
      next
        case (Some n)
        with fS tS assms(5,6) start show ?thesis
          by (simp add: defs group_rows)
      qed
    qed
  qed
qed

subsection \<open>The claims\<close>

text \<open>
  Claim C1. For a stored user (ids are unique in the collection) whose log is \<open>es\<close>, and
  a call in which at least one of the three filters parses, a parsed limit is positive
  and at least one entry is left by the filters: the document that the pipeline produces
  holds, as \<open>log\<close>, the log that the specification describes (sorted by date with a
  stable sort, then restricted to the range, then cut to the limit) and, as \<open>count\<close>,
  the length of the stored log. getExerciseLogsFromUser returns an ExerciseUserRecord,
  a record of \<open>_id\<close>, \<open>username\<close> and \<open>log\<close>: the log is that of the document, and
  the count is not part of what is returned.
\<close>

theorem query_filtered_log:
  assumes "ObjectIDFromHex userID = Some (doc_id d)"
    and "d \<in> set c" and "distinct (map doc_id c)" and "doc_log d = Some es"
    and "Parse fromDate \<noteq> None \<or> Parse toDate \<noteq> None \<or> Atoi limit \<noteq> None"
    and "\<forall>n. Atoi limit = Some n \<longrightarrow> 0 < n"
    and "filtered_log (Parse fromDate) (Parse toDate) (Atoi limit) es \<noteq> []"
  shows "Aggregate c (pipeline (doc_id d) fromDate toDate limit)
         = Inr \<lparr>batch =
                  [\<lparr>agg_id = doc_id d, agg_username = doc_username d,
                    agg_count = Some (int (length es)),
                    agg_log = Some (Arr (map Entry
                      (filtered_log (Parse fromDate) (Parse toDate) (Atoi limit) es)))\<rparr>],
                cursor_Err = None\<rparr>
         \<and> getExerciseLogsFromUser c userID fromDate toDate limit
           = Inr (ExerciseUserRecordJSON
               \<lparr>ID = Hex (doc_id d), Username = doc_username d,
                Log = filtered_log (Parse fromDate) (Parse toDate) (Atoi limit) es\<rparr>)"
proof -
  note run = run_pipe_user[OF assms(2-7)]
  have agg: "Aggregate c (pipeline (doc_id d) fromDate toDate limit)
         = Inr \<lparr>batch =
                  [\<lparr>agg_id = doc_id d, agg_username = doc_username d,
                    agg_count = Some (int (length es)),
                    agg_log = Some (Arr (map Entry
                      (filtered_log (Parse fromDate) (Parse toDate) (Atoi limit) es)))\<rparr>],
                cursor_Err = None\<rparr>"
    by (simp add: Aggregate_def run)
  show ?thesis
    using assms(1) agg
    by (simp add: getExerciseLogsFromUser_def IsValidObjectID_def Decode_grouped)
qed

theorem query_filtered_log_witness:
  "Aggregate [\<lparr>doc_id = 161, doc_username = ''alice'',
       doc_log =
         Some
          [\<lparr>Description = ''swim'', Duration = 30, Date = 1675209600000\<rparr>,
           \<lparr>Description = ''run'', Duration = 20, Date = 1672531200000\<rparr>,
           \<lparr>Description = ''bike'', Duration = 45, Date = 1673740800000\<rparr>]\<rparr>]
     (pipeline 161 ''2023-01-10'' [] ''1'')
   = Inr \<lparr>batch =
            [\<lparr>agg_id = 161, agg_username = ''alice'', agg_count = Some 3,
              agg_log = Some (Arr [Entry \<lparr>Description = ''bike'', Duration = 45,
                                          Date = 1673740800000\<rparr>])\<rparr>],
          cursor_Err = None\<rparr>
   \<and> getExerciseLogsFromUser [\<lparr>doc_id = 161, doc_username = ''alice'',
       doc_log =
         Some
          [\<lparr>Description = ''swim'', Duration = 30, Date = 1675209600000\<rparr>,
           \<lparr>Description = ''run'', Duration = 20, Date = 1672531200000\<rparr>,
           \<lparr>Description = ''bike'', Duration = 45, Date = 1673740800000\<rparr>]\<rparr>]
       ''0000000000000000000000a1'' ''2023-01-10'' [] ''1''
     = Inr (ExerciseUserRecordJSON
         \<lparr>ID = ''0000000000000000000000a1'', Username = ''alice'',
          Log = [\<lparr>Description = ''bike'', Duration = 45, Date = 1673740800000\<rparr>]\<rparr>)"
proof -
  let ?es = "[\<lparr>Description = ''swim'', Duration = 30, Date = 1675209600000\<rparr>,
           \<lparr>Description = ''run'', Duration = 20, Date = 1672531200000\<rparr>,
           \<lparr>Description = ''bike'', Duration = 45, Date = 1673740800000\<rparr>]"
  let ?d = "\<lparr>doc_id = 161, doc_username = ''alice'', doc_log = Some ?es\<rparr>"
  have fl: "filtered_log (Parse ''2023-01-10'') (Parse []) (Atoi ''1'') ?es
            = [\<lparr>Description = ''bike'', Duration = 45, Date = 1673740800000\<rparr>]"
    by (simp add: filtered_log_def parse_0110 Parse_Nil atoi_1)
  have h1: "ObjectIDFromHex ''0000000000000000000000a1'' = Some (doc_id ?d)"
    by (simp add: oid_a1)
  have h2: "?d \<in> set [?d]" and h3: "distinct (map doc_id [?d])" and h4: "doc_log ?d = Some ?es"
    by simp_all
  have h5: "Parse ''2023-01-10'' \<noteq> None \<or> Parse [] \<noteq> None \<or> Atoi ''1'' \<noteq> None"
    by (simp add: parse_0110)
  have h6: "\<forall>n. Atoi ''1'' = Some n \<longrightarrow> 0 < n"
    by (simp add: atoi_1)
  have h7: "filtered_log (Parse ''2023-01-10'') (Parse []) (Atoi ''1'') ?es \<noteq> []"
    by (simp add: fl)
  from query_filtered_log[OF h1 h2 h3 h4 h5 h6 h7] show ?thesis
    by (simp add: fl hex_a1)
qed

text \<open>
  Claim C2. For a stored user whose document has no \<open>log\<close> field (the state in which
  createExerciseUser leaves a new user), the first stage of the pipeline matches nothing,
  the cursor is exhausted without an error, and the lookup of the bare record is not
  made: the call returns no bytes (or panics on a limit that is not positive), and never
  the record of the user.
\<close>

theorem query_user_without_log:
  assumes "ObjectIDFromHex userID = Some oid" and "d \<in> set c" and "doc_id d = oid"
    and "distinct (map doc_id c)" and "doc_log d = None"
  shows "getExerciseLogsFromUser c userID fromDate toDate limit =
           (case Atoi limit of
              None \<Rightarrow> Inr NoBytes
            | Some n \<Rightarrow> if n \<le> 0 then Inl NilPointerDereference else Inr NoBytes)
         \<and> getExerciseLogsFromUser c userID fromDate toDate limit
             \<noteq> Inr (ExerciseUserRecordJSON (Decode_userDoc d))"
proof -
  have "\<forall>x\<in>set c. doc_id x = oid \<longrightarrow> doc_log x = None"
  proof (intro ballI impI)
    fix x assume "x \<in> set c" "doc_id x = oid"
    with assms(2,3,4) have "x = d" by (metis distinct_map inj_onD)
    with assms(5) show "doc_log x = None" by simp
  qed
  from query_no_match[OF assms(1) this, of fromDate toDate limit]
  show ?thesis by (simp split: option.splits)
qed

theorem query_user_without_log_witness:
  "getExerciseLogsFromUser
     [\<lparr>doc_id = 161, doc_username = ''alice'', doc_log = None\<rparr>]
     ''0000000000000000000000a1'' [] [] [] = Inr NoBytes"
proof -
  let ?d = "\<lparr>doc_id = 161, doc_username = ''alice'', doc_log = None\<rparr>"
  have a: "?d \<in> set [?d]" "doc_id ?d = 161" "distinct (map doc_id [?d])" "doc_log ?d = None"
    by simp_all
  from query_user_without_log[OF oid_a1 a, of "[]" "[]" "[]"] show ?thesis by (simp add: Atoi_Nil)
qed

text \<open>
  Claim C3. For a well-formed id that no stored document carries, the call returns no
  bytes (or panics on a limit that is not positive); it never returns the payload
  \<open>{"error":"invalid user"}\<close>.
\<close>

theorem query_unknown_user:
  assumes "ObjectIDFromHex userID = Some oid" and "oid \<notin> set (map doc_id c)"
  shows "getExerciseLogsFromUser c userID fromDate toDate limit =
           (case Atoi limit of
              None \<Rightarrow> Inr NoBytes
            | Some n \<Rightarrow> if n \<le> 0 then Inl NilPointerDereference else Inr NoBytes)
         \<and> getExerciseLogsFromUser c userID fromDate toDate limit
             \<noteq> Inr (ErrorMessage ''invalid user'')"
proof -
  from assms(2) have "\<forall>x\<in>set c. doc_id x = oid \<longrightarrow> doc_log x = None" by auto
  from query_no_match[OF assms(1) this, of fromDate toDate limit]
  show ?thesis by (simp split: option.splits)
qed

theorem query_unknown_user_witness:
  "getExerciseLogsFromUser
     [\<lparr>doc_id = 162, doc_username = ''bob'', doc_log = None\<rparr>]
     ''0000000000000000000000a1'' [] [] [] = Inr NoBytes"
proof -
  have a: "161 \<notin> set (map doc_id [\<lparr>doc_id = 162, doc_username = ''bob'', doc_log = None\<rparr>])"
    by simp
  from query_unknown_user[OF oid_a1 a, of "[]" "[]" "[]"] show ?thesis by (simp add: Atoi_Nil)
qed




text \<open>
  Claim C10. Whenever the \<open>limit\<close> string parses as an integer \<open>n\<close>, of any sign, the
  pipeline holds the stage \<open>$limit n\<close>, which the pipeline of an absent limit does not
  hold; \<open>"0"\<close> and \<open>"-5"\<close> parse. A positive \<open>n\<close> is the row cap: the log returned is
  the first \<open>n\<close> entries of the sorted log restricted to the date range. When \<open>n\<close> is
  not positive the store rejects the pipeline, Aggregate returns no cursor, the error is
  only logged and the call ends in the nil dereference: no cap is applied and nothing is
  returned.
\<close>

theorem query_any_integer_limit:
  assumes "ObjectIDFromHex userID = Some oid" and "Atoi limit = Some n"
  shows "Limit n \<in> set (pipeline oid fromDate toDate limit)
         \<and> Limit n \<notin> set (pipeline oid fromDate toDate [])
         \<and> (0 < n \<and> d \<in> set c \<and> doc_id d = oid \<and> distinct (map doc_id c)
              \<and> doc_log d = Some es
              \<and> take (nat n) (filtered_log (Parse fromDate) (Parse toDate) None es) \<noteq> []
             \<longrightarrow>
              getExerciseLogsFromUser c userID fromDate toDate limit
              = Inr (ExerciseUserRecordJSON
                  \<lparr>ID = Hex oid, Username = doc_username d,
                   Log = take (nat n)
                           (filtered_log (Parse fromDate) (Parse toDate) None es)\<rparr>))
         \<and> (n \<le> 0 \<longrightarrow>
              getExerciseLogsFromUser c userID fromDate toDate limit = Inl NilPointerDereference)
         \<and> Atoi ''0'' = Some 0 \<and> Atoi ''-5'' = Some (- 5)"
proof -
  have 1: "Limit n \<in> set (pipeline oid fromDate toDate limit)"
    by (rule limit_in_pipeline[OF assms(2)])
  have 2: "Limit n \<notin> set (pipeline oid fromDate toDate [])"
    by (rule limit_notin_pipeline[OF Atoi_Nil])
  have 3: "getExerciseLogsFromUser c userID fromDate toDate limit = Inl NilPointerDereference"
    if "n \<le> 0"
  proof -
    from run_pipe_bad_limit[OF that 1]
    obtain e where "run_pipe (pipeline oid fromDate toDate limit) (map toAgg c) = Inl e"
      by blast
    then show ?thesis using assms(1)
      by (simp add: getExerciseLogsFromUser_def IsValidObjectID_def Aggregate_def)
  qed
  have 4: "getExerciseLogsFromUser c userID fromDate toDate limit
              = Inr (ExerciseUserRecordJSON
                  \<lparr>ID = Hex oid, Username = doc_username d,
                   Log = take (nat n)
                           (filtered_log (Parse fromDate) (Parse toDate) None es)\<rparr>)"
    if pos: "0 < n" and d: "d \<in> set c" "doc_id d = oid" "distinct (map doc_id c)"
      "doc_log d = Some es"
      and kept: "take (nat n) (filtered_log (Parse fromDate) (Parse toDate) None es) \<noteq> []"
  proof -
    have cap: "filtered_log (Parse fromDate) (Parse toDate) (Atoi limit) es
               = take (nat n) (filtered_log (Parse fromDate) (Parse toDate) None es)"
      by (simp add: filtered_log_def assms(2))
    have valid: "Parse fromDate \<noteq> None \<or> Parse toDate \<noteq> None \<or> Atoi limit \<noteq> None"
      by (simp add: assms(2))
    have lim: "\<forall>m. Atoi limit = Some m \<longrightarrow> 0 < m"
      using pos by (simp add: assms(2))
    have ne: "filtered_log (Parse fromDate) (Parse toDate) (Atoi limit) es \<noteq> []"
      unfolding cap by (rule kept)
    from run_pipe_user[OF d(1) d(3) d(4) valid lim ne]
    have "run_pipe (pipeline oid fromDate toDate limit) (map toAgg c)
         = Inr [\<lparr>agg_id = oid, agg_username = doc_username d,
                 agg_count = Some (int (length es)),
                 agg_log = Some (Arr (map Entry
                   (take (nat n) (filtered_log (Parse fromDate) (Parse toDate) None es))))\<rparr>]"
      by (simp only: cap d(2))
    then show ?thesis using assms(1)
      by (simp add: getExerciseLogsFromUser_def IsValidObjectID_def Aggregate_def Decode_grouped)
  qed
  from 1 2 3 4 show ?thesis by (simp add: atoi_0 atoi_m5)
qed

theorem query_any_integer_limit_witness:
  "getExerciseLogsFromUser
       [\<lparr>doc_id = 161, doc_username = ''alice'',
         doc_log =
           Some
            [\<lparr>Description = ''swim'', Duration = 30, Date = 1675209600000\<rparr>,
             \<lparr>Description = ''run'', Duration = 20, Date = 1672531200000\<rparr>,
             \<lparr>Description = ''bike'', Duration = 45, Date = 1673740800000\<rparr>]\<rparr>]
       ''0000000000000000000000a1'' [] [] ''1''
     = Inr (ExerciseUserRecordJSON
         \<lparr>ID = ''0000000000000000000000a1'', Username = ''alice'',
          Log = [\<lparr>Description = ''run'', Duration = 20, Date = 1672531200000\<rparr>]\<rparr>)
   \<and> Limit 0 \<in> set (pipeline 161 [] [] ''0'')
   \<and> getExerciseLogsFromUser
       [\<lparr>doc_id = 161, doc_username = ''alice'',
         doc_log =
           Some
            [\<lparr>Description = ''swim'', Duration = 30, Date = 1675209600000\<rparr>,
             \<lparr>Description = ''run'', Duration = 20, Date = 1672531200000\<rparr>,
             \<lparr>Description = ''bike'', Duration = 45, Date = 1673740800000\<rparr>]\<rparr>]
       ''0000000000000000000000a1'' [] [] ''0'' = Inl NilPointerDereference"
proof -
  let ?es = "[\<lparr>Description = ''swim'', Duration = 30, Date = 1675209600000\<rparr>,
             \<lparr>Description = ''run'', Duration = 20, Date = 1672531200000\<rparr>,
             \<lparr>Description = ''bike'', Duration = 45, Date = 1673740800000\<rparr>]"
  let ?d = "\<lparr>doc_id = 161, doc_username = ''alice'', doc_log = Some ?es\<rparr>"
  have fl: "filtered_log (Parse []) (Parse []) None ?es
            = [\<lparr>Description = ''run'', Duration = 20, Date = 1672531200000\<rparr>,
               \<lparr>Description = ''bike'', Duration = 45, Date = 1673740800000\<rparr>,
               \<lparr>Description = ''swim'', Duration = 30, Date = 1675209600000\<rparr>]"
    by (simp add: filtered_log_def Parse_Nil)
  have user: "(0::int) < 1 \<and> ?d \<in> set [?d] \<and> doc_id ?d = 161 \<and> distinct (map doc_id [?d])
              \<and> doc_log ?d = Some ?es
              \<and> take (nat 1) (filtered_log (Parse []) (Parse []) None ?es) \<noteq> []"
    by (simp add: fl)
  from query_any_integer_limit[OF oid_a1 atoi_1, of "[]" "[]" ?d "[?d]" ?es] user
  have one: "getExerciseLogsFromUser [?d] ''0000000000000000000000a1'' [] [] ''1''
     = Inr (ExerciseUserRecordJSON
         \<lparr>ID = Hex 161, Username = doc_username ?d,
          Log = take (nat 1) (filtered_log (Parse []) (Parse []) None ?es)\<rparr>)"
    by blast
  from query_any_integer_limit[OF oid_a1 atoi_0, of "[]" "[]" ?d "[?d]" ?es]
  have zero: "Limit 0 \<in> set (pipeline 161 [] [] ''0'')
     \<and> getExerciseLogsFromUser [?d] ''0000000000000000000000a1'' [] [] ''0''
         = Inl NilPointerDereference"
    by simp
  from one zero show ?thesis by (simp add: fl hex_a1)
qed

subsection \<open>Claims about addExerciseToUser\<close>

text \<open>
  Claim C9, as amended. When the duration string is not an integer the collection is
  left as it was; the payload is \<open>{"error":"invalid duration"}\<close> when the user id is
  well-formed and \<open>{"error":"invalid id"}\<close> when it is not, since the id is checked first.
\<close>

theorem addExercise_bad_duration:
  assumes "Atoi duration = None"
  shows "addExerciseToUser now c userID desc duration date =
           (if IsValidObjectID userID then ErrorMessage ''invalid duration''
            else ErrorMessage ''invalid id'', c)"
  using assms by (auto simp add: addExerciseToUser_def IsValidObjectID_def)

theorem addExercise_bad_duration_witness:
  "addExerciseToUser 0 [\<lparr>doc_id = 161, doc_username = ''alice'', doc_log = None\<rparr>]
     ''0000000000000000000000a1'' ''swim'' ''abc'' ''2023-01-10''
   = (ErrorMessage ''invalid duration'',
      [\<lparr>doc_id = 161, doc_username = ''alice'', doc_log = None\<rparr>])"
  using addExercise_bad_duration[OF atoi_abc, of 0 "[\<lparr>doc_id = 161, doc_username = ''alice'', doc_log = None\<rparr>]"
      "''0000000000000000000000a1''" "''swim''" "''2023-01-10''"]
  by (simp add: IsValidObjectID_def oid_a1)

text \<open>
  Claim C9 as stated fails for a malformed id: the duration \<open>abc\<close> is not an integer and
  the payload is not \<open>{"error":"invalid duration"}\<close>.
\<close>

theorem addExercise_bad_duration_counterexample:
  "Atoi ''abc'' = None
   \<and> fst (addExerciseToUser 0 [\<lparr>doc_id = 161, doc_username = ''alice'', doc_log = None\<rparr>]
          ''xyz'' ''swim'' ''abc'' ''2023-01-10'') \<noteq> ErrorMessage ''invalid duration''"
  using oid_invalid by (simp add: atoi_abc addExerciseToUser_def)

end
